theory Spec2Isabelle
  imports Main "HOL-Library.Word"
begin

section \<open>DHCPv6 relay envelopes (dhcpv6/dhcpv6relay.go)\<close>

subsection \<open>Data model\<close>

text \<open>
  Go's \<open>byte\<close> and \<open>uint8\<close> are 8-bit words. \<open>net.IP\<close> is a byte slice; a nil slice and
  an empty one behave alike under \<open>copy\<close>, so both are the empty list. \<open>int\<close> is the
  64-bit signed integer of the usual targets: a 64-bit word read with \<open>sint\<close>.
\<close>

type_synonym byte = "8 word"
type_synonym MessageType = "8 word"
type_synonym OptionCode = "16 word"
type_synonym IP = "byte list"
type_synonym go_int = "64 word"

text \<open>
  The struct \<open>DHCPv6Relay\<close> (lines 11-17). The type of options is a parameter \<open>'o\<close>: the
  \<open>Option\<close> interface is declared outside this file, and its methods \<open>Code\<close>,
  \<open>Length\<close> and \<open>ToBytes\<close> are passed to the functions that call them. The struct is a
  datatype with selectors rather than a record, because relay messages nest through
  their options.
\<close>

datatype 'o DHCPv6Relay =
  DHCPv6Relay (messageType: MessageType) (hopCount: "8 word")
    (linkAddr: IP) (peerAddr: IP) (options: "'o list")

definition RelayHeaderSize :: nat where
  "RelayHeaderSize = 34"

subsection \<open>Wire encoding\<close>

text \<open>\<open>make([]byte, n)\<close>: a slice of \<open>n\<close> zero bytes.\<close>

definition make_bytes :: "nat \<Rightarrow> byte list" where
  "make_bytes n = replicate n 0"

text \<open>
  \<open>copy(ret[lo:hi], src)\<close>: writes \<open>src\<close> into the window element by element and stops
  at the end of the shorter of the two.
\<close>

definition copy_slice :: "'a list \<Rightarrow> nat \<Rightarrow> nat \<Rightarrow> 'a list \<Rightarrow> 'a list" where
  "copy_slice ret lo hi src =
     foldl (\<lambda>acc i. acc[lo + i := src ! i]) ret [0..<min (hi - lo) (length src)]"

text \<open>\<open>ToBytes\<close> (lines 52-63).\<close>

definition ToBytes :: "('o \<Rightarrow> byte list) \<Rightarrow> 'o DHCPv6Relay \<Rightarrow> byte list" where
  "ToBytes optToBytes r =
     (let ret0 = make_bytes RelayHeaderSize;
          ret1 = ret0[0 := messageType r];
          ret2 = ret1[1 := hopCount r];
          ret3 = copy_slice ret2 2 18 (linkAddr r);
          ret4 = copy_slice ret3 18 34 (peerAddr r)
      in foldl (\<lambda>ret opt. ret @ optToBytes opt) ret4 (options r))"

text \<open>\<open>Length\<close> (lines 98-104), in Go's \<open>int\<close>.\<close>

definition Length :: "('o \<Rightarrow> go_int) \<Rightarrow> 'o DHCPv6Relay \<Rightarrow> go_int" where
  "Length optLength r =
     foldl (\<lambda>mLen opt. mLen + (optLength opt + 4)) (word_of_nat RelayHeaderSize) (options r)"

text \<open>
  The contract of the external \<open>Option\<close> type that the size claims rest on: the encoding
  of an option is its 4-byte header followed by \<open>Length()\<close> bytes of payload.
\<close>

definition OptionContract :: "('o \<Rightarrow> byte list) \<Rightarrow> ('o \<Rightarrow> go_int) \<Rightarrow> 'o \<Rightarrow> bool" where
  "OptionContract optToBytes optLength opt =
     (int (length (optToBytes opt)) = sint (optLength opt) + 4)"

text \<open>The 34-byte header that \<open>ToBytes\<close> builds before it appends the options.\<close>

definition header :: "'o DHCPv6Relay \<Rightarrow> byte list" where
  "header r =
     copy_slice (copy_slice (((make_bytes RelayHeaderSize)[0 := messageType r])[1 := hopCount r])
       2 18 (linkAddr r)) 18 34 (peerAddr r)"

subsection \<open>Option management\<close>

text \<open>\<open>SetOptions\<close> (lines 117-119). The receiver is updated in place; the model returns it.\<close>

definition SetOptions :: "'o DHCPv6Relay \<Rightarrow> 'o list \<Rightarrow> 'o DHCPv6Relay" where
  "SetOptions r opts =
     DHCPv6Relay (messageType r) (hopCount r) (linkAddr r) (peerAddr r) opts"

text \<open>\<open>AddOption\<close> (lines 121-123).\<close>

definition AddOption :: "'o DHCPv6Relay \<Rightarrow> 'o \<Rightarrow> 'o DHCPv6Relay" where
  "AddOption r option = SetOptions r (options r @ [option])"

text \<open>
  \<open>UpdateOption\<close> (lines 126-136). The \<open>range\<close> loop walks the options with their
  index \<open>idx\<close>; at the first option with the code of the new one it assigns
  \<open>r.options[idx]\<close> and returns. \<open>None\<close> is the loop running to its end.
\<close>

fun UpdateOption_loop ::
  "('o \<Rightarrow> OptionCode) \<Rightarrow> 'o list \<Rightarrow> 'o \<Rightarrow> nat \<Rightarrow> 'o list \<Rightarrow> 'o list option" where
  "UpdateOption_loop Code opts option idx [] = None"
| "UpdateOption_loop Code opts option idx (opt # rest) =
     (if Code opt = Code option then Some (opts[idx := option])
      else UpdateOption_loop Code opts option (Suc idx) rest)"

definition UpdateOption :: "('o \<Rightarrow> OptionCode) \<Rightarrow> 'o DHCPv6Relay \<Rightarrow> 'o \<Rightarrow> 'o DHCPv6Relay" where
  "UpdateOption Code r option =
     (case UpdateOption_loop Code (options r) option 0 (options r) of
        Some opts' \<Rightarrow> SetOptions r opts'
      | None \<Rightarrow> AddOption r option)"

subsection \<open>Messages, errors and the single-hop primitives\<close>

text \<open>
  The interface \<open>DHCPv6\<close>: a non-nil value is a relay envelope or a leaf message, whose
  type \<open>'m\<close> is left open. A nil interface value is \<open>None\<close> of the option type.
\<close>

datatype ('o, 'm) DHCPv6 = Relay "'o DHCPv6Relay" | Message 'm

text \<open>
  Modelled from the spec: \<open>IsRelay\<close> of a leaf message is outside this file; a leaf
  message unconditionally reports itself as not a relay. \<open>IsRelay\<close> of a relay envelope
  is lines 138-140.
\<close>

fun IsRelay :: "('o, 'm) DHCPv6 \<Rightarrow> bool" where
  "IsRelay (Relay r) = True"
| "IsRelay (Message m) = False"

text \<open>
  Modelled from the spec: the constants \<open>RELAY_FORW\<close>, \<open>RELAY_REPL\<close>,
  \<open>OPTION_RELAY_MSG\<close> and \<open>OPTION_INTERFACE_ID\<close> are declared outside this file. The spec
  names them as distinct message types and option codes; the numbers are the protocol's,
  and only their being distinct is used.
\<close>

definition RELAY_FORW :: MessageType where
  "RELAY_FORW = 12"

definition RELAY_REPL :: MessageType where
  "RELAY_REPL = 13"

definition OPTION_RELAY_MSG :: OptionCode where
  "OPTION_RELAY_MSG = 9"

definition OPTION_INTERFACE_ID :: OptionCode where
  "OPTION_INTERFACE_ID = 18"

text \<open>
  Modelled from the spec: \<open>getOption\<close> is outside this file; it returns the first
  matching option or a nil value. \<open>GetOneOption\<close> (lines 113-115) calls it on the
  options of the envelope.
\<close>

definition GetOneOption :: "('o \<Rightarrow> OptionCode) \<Rightarrow> 'o DHCPv6Relay \<Rightarrow> OptionCode \<Rightarrow> 'o option" where
  "GetOneOption Code r code = find (\<lambda>opt. Code opt = code) (options r)"

text \<open>
  The errors this file makes, one constructor per \<open>errors.New\<close> or \<open>fmt.Errorf\<close> call
  site, and \<open>External\<close> for an error that a primitive returned and the file passes on:
  \<^item> \<open>RelayForwNil\<close>: "RELAY_FORW cannot be nil" (line 194);
  \<^item> \<open>NotADHCPv6Relay\<close>: "Not a DHCPv6Relay" (line 198);
  \<^item> \<open>NotRelayForw\<close>: "The passed packet is not of type RELAY_FORW" (line 201);
  \<^item> \<open>MessageNil\<close>: "The passed message cannot be nil" (line 204);
  \<^item> \<open>MessageIsRelay\<close>: "The passed message cannot be a relay" (line 207);
  \<^item> \<open>WrongHopCount\<close>: "Wrong Hop count" (line 179).
\<close>

datatype 'e error =
    RelayForwNil
  | NotADHCPv6Relay
  | NotRelayForw
  | MessageNil
  | MessageIsRelay
  | WrongHopCount
  | External 'e

text \<open>
  A call either returns or panics (a method call on a nil interface value, an index out
  of range). A Go result \<open>(v, err)\<close> is the pair of the two, nil being \<open>None\<close>; a nil
  \<open>net.IP\<close> is the empty list.
\<close>

datatype 'a outcome = Return 'a | Panic

text \<open>
  \<open>DecapsulateRelay\<close> and \<open>EncapsulateRelay\<close> are outside this file. The functions that
  call them take them as parameters, with the types of their Go signatures; the result
  of \<open>EncapsulateRelay\<close>, when it is not nil, is a relay envelope.
\<close>

type_synonym ('o, 'm, 'e) decapsulate =
  "('o, 'm) DHCPv6 \<Rightarrow> ('o, 'm) DHCPv6 option \<times> 'e option"

type_synonym ('o, 'm, 'e) encapsulate =
  "('o, 'm) DHCPv6 option \<Rightarrow> MessageType \<Rightarrow> IP \<Rightarrow> IP \<Rightarrow> 'o DHCPv6Relay option \<times> 'e option"

subsection \<open>Walking a chain\<close>

text \<open>
  \<open>GetInnerMessage\<close> (lines 144-159). The loop has no bound of its own, so the model is
  a partial function: \<open>None\<close> is the loop never returning. The last argument counts the
  calls of \<open>DecapsulateRelay\<close> made so far and is returned with the result.
\<close>

partial_function (option) GetInnerMessage_loop ::
  "('o, 'm, 'e) decapsulate \<Rightarrow> ('o, 'm) DHCPv6 \<Rightarrow> nat \<Rightarrow>
   ((('o, 'm) DHCPv6 option \<times> 'e error option) outcome \<times> nat) option" where
  "GetInnerMessage_loop DecapsulateRelay p n =
     (if \<not> IsRelay p then Some (Return (Some p, None), n)
      else case DecapsulateRelay p of
             (_, Some err) \<Rightarrow> Some (Return (None, Some (External err)), Suc n)
           | (None, None) \<Rightarrow> Some (Panic, Suc n)
           | (Some p', None) \<Rightarrow> GetInnerMessage_loop DecapsulateRelay p' (Suc n))"

declare GetInnerMessage_loop.simps [code]

definition GetInnerMessage ::
  "('o, 'm, 'e) decapsulate \<Rightarrow> 'o DHCPv6Relay \<Rightarrow>
   ((('o, 'm) DHCPv6 option \<times> 'e error option) outcome \<times> nat) option" where
  "GetInnerMessage DecapsulateRelay d = GetInnerMessage_loop DecapsulateRelay (Relay d) 0"

text \<open>
  \<open>GetInnerPeerAddr\<close> (lines 163-183). The counter \<open>i\<close> is a \<open>uint8\<close> running up to the
  hop count, so the loop ends; the last argument again counts the decapsulations.
\<close>

function GetInnerPeerAddr_loop ::
  "('o, 'm, 'e) decapsulate \<Rightarrow> 8 word \<Rightarrow> 8 word \<Rightarrow> ('o, 'm) DHCPv6 \<Rightarrow> IP \<Rightarrow> nat \<Rightarrow>
   (IP \<times> 'e error option) outcome \<times> nat" where
  "GetInnerPeerAddr_loop DecapsulateRelay hops i p addr n =
     (if i < hops then
        (case DecapsulateRelay p of
           (_, Some err) \<Rightarrow> (Return ([], Some (External err)), Suc n)
         | (None, None) \<Rightarrow> (Panic, Suc n)
         | (Some (Relay r'), None) \<Rightarrow>
             GetInnerPeerAddr_loop DecapsulateRelay hops (i + 1) (Relay r') (peerAddr r') (Suc n)
         | (Some (Message m), None) \<Rightarrow> (Return ([], Some WrongHopCount), Suc n))
      else (Return (addr, None), n))"
  by pat_completeness auto
termination
proof (relation "measure (\<lambda>(D, hops, i, p, addr, n). unat hops - unat i)")
  show "wf (measure (\<lambda>(D, hops, i, p, addr, n). unat hops - unat i))" by simp
next
  fix D :: "('o, 'm, 'e) decapsulate" and hops i :: "8 word" and p :: "('o, 'm) DHCPv6"
    and addr :: IP and n :: nat and x1 :: "'o DHCPv6Relay"
  assume "i < hops"
  then have less: "unat i < unat hops" by (simp add: word_less_nat_alt)
  then have "unat (i + 1) = Suc (unat i)"
    using unsigned_less [of hops, where ?'a = nat] by (simp add: unat_word_ariths)
  with less show "((D, hops, i + 1, Relay x1, peerAddr x1, Suc n), (D, hops, i, p, addr, n))
      \<in> measure (\<lambda>(D, hops, i, p, addr, n). unat hops - unat i)"
    by simp
qed

declare GetInnerPeerAddr_loop.simps [simp del]

definition GetInnerPeerAddr ::
  "('o, 'm, 'e) decapsulate \<Rightarrow> 'o DHCPv6Relay \<Rightarrow> (IP \<times> 'e error option) outcome \<times> nat" where
  "GetInnerPeerAddr DecapsulateRelay r =
     GetInnerPeerAddr_loop DecapsulateRelay (hopCount r) 0 (Relay r) (peerAddr r) 0"

subsection \<open>Rebuilding a reply chain\<close>

text \<open>
  The first loop of \<open>NewRelayReplFromRelayForw\<close> (lines 209-222): it records the
  addresses and the interface-id option of each envelope, outermost first. It has no
  bound of its own either. \<open>Inl\<close> is the early return of line 215 with the error of
  \<open>DecapsulateRelay\<close>, \<open>Inr\<close> the \<open>break\<close>.
\<close>

partial_function (option) unwind ::
  "('o \<Rightarrow> OptionCode) \<Rightarrow> ('o, 'm, 'e) decapsulate \<Rightarrow> 'o DHCPv6Relay \<Rightarrow>
   IP list \<Rightarrow> IP list \<Rightarrow> 'o option list \<Rightarrow>
   ('e + IP list \<times> IP list \<times> 'o option list) outcome option" where
  "unwind Code DecapsulateRelay relay linkAddrs peerAddrs optiids =
     (let linkAddrs = linkAddrs @ [linkAddr relay];
          peerAddrs = peerAddrs @ [peerAddr relay];
          optiids = optiids @ [GetOneOption Code relay OPTION_INTERFACE_ID]
      in case DecapsulateRelay (Relay relay) of
           (_, Some err) \<Rightarrow> Some (Return (Inl err))
         | (None, None) \<Rightarrow> Some Panic
         | (Some (Relay r'), None) \<Rightarrow> unwind Code DecapsulateRelay r' linkAddrs peerAddrs optiids
         | (Some (Message m), None) \<Rightarrow> Some (Return (Inr (linkAddrs, peerAddrs, optiids))))"

declare unwind.simps [code]

text \<open>
  The second loop (lines 223-231), for \<open>i\<close> from \<open>len(linkAddr) - 1\<close> down to 0; the
  last argument is \<open>i + 1\<close>. The result of \<open>EncapsulateRelay\<close> is assigned to \<open>msg\<close> and
  \<open>err\<close>, then \<open>AddOption\<close> is called on \<open>msg\<close> when the hop recorded an option, and only
  then \<open>err\<close> is looked at. \<open>AddOption\<close> on a nil \<open>msg\<close> panics.
\<close>

fun rewind ::
  "('o, 'm, 'e) encapsulate \<Rightarrow> IP list \<Rightarrow> IP list \<Rightarrow> 'o option list \<Rightarrow>
   ('o, 'm) DHCPv6 option \<Rightarrow> nat \<Rightarrow> (('o, 'm) DHCPv6 option \<times> 'e error option) outcome" where
  "rewind EncapsulateRelay linkAddrs peerAddrs optiids msg 0 = Return (msg, None)"
| "rewind EncapsulateRelay linkAddrs peerAddrs optiids msg (Suc i) =
     (if i < length linkAddrs \<and> i < length peerAddrs \<and> i < length optiids then
        (case EncapsulateRelay msg RELAY_REPL (linkAddrs ! i) (peerAddrs ! i) of
           (msg', err) \<Rightarrow>
             (case optiids ! i of
                Some opt \<Rightarrow>
                  (case msg' of
                     None \<Rightarrow> Panic
                   | Some e \<Rightarrow>
                       (case err of
                          Some x \<Rightarrow> Return (None, Some (External x))
                        | None \<Rightarrow>
                            rewind EncapsulateRelay linkAddrs peerAddrs optiids
                              (Some (Relay (AddOption e opt))) i))
              | None \<Rightarrow>
                  (case err of
                     Some x \<Rightarrow> Return (None, Some (External x))
                   | None \<Rightarrow>
                       rewind EncapsulateRelay linkAddrs peerAddrs optiids
                         (map_option Relay msg') i)))
      else Panic)"

text \<open>\<open>NewRelayReplFromRelayForw\<close> (lines 187-233): the five checks, then the two loops.\<close>

definition NewRelayReplFromRelayForw ::
  "('o \<Rightarrow> OptionCode) \<Rightarrow> ('o, 'm, 'e) decapsulate \<Rightarrow> ('o, 'm, 'e) encapsulate \<Rightarrow>
   ('o, 'm) DHCPv6 option \<Rightarrow> ('o, 'm) DHCPv6 option \<Rightarrow>
   (('o, 'm) DHCPv6 option \<times> 'e error option) outcome option" where
  "NewRelayReplFromRelayForw Code DecapsulateRelay EncapsulateRelay relayForw msg =
     (case relayForw of
        None \<Rightarrow> Some (Return (None, Some RelayForwNil))
      | Some (Message m) \<Rightarrow> Some (Return (None, Some NotADHCPv6Relay))
      | Some (Relay relay) \<Rightarrow>
          if messageType relay \<noteq> RELAY_FORW then Some (Return (None, Some NotRelayForw))
          else
            (case msg of
               None \<Rightarrow> Some (Return (None, Some MessageNil))
             | Some m \<Rightarrow>
                 if IsRelay m then Some (Return (None, Some MessageIsRelay))
                 else
                   (case unwind Code DecapsulateRelay relay [] [] [] of
                      None \<Rightarrow> None
                    | Some Panic \<Rightarrow> Some Panic
                    | Some (Return (Inl err)) \<Rightarrow> Some (Return (None, Some (External err)))
                    | Some (Return (Inr (linkAddrs, peerAddrs, optiids))) \<Rightarrow>
                        Some (rewind EncapsulateRelay linkAddrs peerAddrs optiids msg
                                (length linkAddrs)))))"

subsection \<open>Chains\<close>

text \<open>
  A chain of depth \<open>length es\<close>: the relay envelopes \<open>es\<close>, outermost first, each
  decapsulating to the next, and the last to the leaf message, which is not a relay.
\<close>

fun chain ::
  "('o, 'm, 'e) decapsulate \<Rightarrow> ('o, 'm) DHCPv6 \<Rightarrow> 'o DHCPv6Relay list \<Rightarrow> ('o, 'm) DHCPv6 \<Rightarrow> bool" where
  "chain DecapsulateRelay p [] leaf = (p = leaf \<and> \<not> IsRelay p)"
| "chain DecapsulateRelay p (e # es) leaf =
     (p = Relay e \<and>
      (case DecapsulateRelay p of
         (Some q, None) \<Rightarrow> chain DecapsulateRelay q es leaf
       | _ \<Rightarrow> False))"

text \<open>
  A chain that breaks: the envelopes \<open>es\<close> decapsulate one to the next, and at the last
  of them \<open>DecapsulateRelay\<close> returns the error \<open>err\<close>.
\<close>

fun broken_chain ::
  "('o, 'm, 'e) decapsulate \<Rightarrow> ('o, 'm) DHCPv6 \<Rightarrow> 'o DHCPv6Relay list \<Rightarrow> 'e \<Rightarrow> bool" where
  "broken_chain DecapsulateRelay p [] err = False"
| "broken_chain DecapsulateRelay p (e # es) err =
     (p = Relay e \<and>
      (case DecapsulateRelay p of
         (_, Some x) \<Rightarrow> es = [] \<and> x = err
       | (None, None) \<Rightarrow> False
       | (Some q, None) \<Rightarrow> broken_chain DecapsulateRelay q es err))"

text \<open>
  What the reply chain needs of the two primitives, in the words of their contracts:
  \<open>EncapsulateRelay\<close> wraps the message in one new relay envelope of the given type and
  addresses, and \<open>DecapsulateRelay\<close> strips that layer again, also after an
  interface-identifier option has been added to the envelope.
\<close>

definition EncapsulateContract ::
  "('o \<Rightarrow> OptionCode) \<Rightarrow> ('o, 'm, 'e) decapsulate \<Rightarrow> ('o, 'm, 'e) encapsulate \<Rightarrow> bool" where
  "EncapsulateContract Code DecapsulateRelay EncapsulateRelay =
     (\<forall>m mType link peer. \<exists>e.
        EncapsulateRelay (Some m) mType link peer = (Some e, None)
        \<and> messageType e = mType \<and> linkAddr e = link \<and> peerAddr e = peer
        \<and> DecapsulateRelay (Relay e) = (Some m, None)
        \<and> (\<forall>opt. Code opt = OPTION_INTERFACE_ID \<longrightarrow>
              DecapsulateRelay (Relay (AddOption e opt)) = (Some m, None)))"

subsection \<open>The primitives, from their contracts\<close>

text \<open>
  Modelled from the spec: the option types are outside this file. A relay envelope holds
  the message it wraps in its relay-message option; an interface-identifier option is
  carried opaquely; any other option is a code and a payload.
\<close>

datatype 'm Option =
    OptRelayMsg "('m Option, 'm) DHCPv6"
  | OptInterfaceId "byte list"
  | OptionGeneric OptionCode "byte list"

fun OptionCode_of :: "'m Option \<Rightarrow> OptionCode" where
  "OptionCode_of (OptRelayMsg m) = OPTION_RELAY_MSG"
| "OptionCode_of (OptInterfaceId d) = OPTION_INTERFACE_ID"
| "OptionCode_of (OptionGeneric c d) = c"

text \<open>
  Modelled from the spec: \<open>DecapsulateRelay\<close> is outside this file. It strips exactly one
  relay layer and fails on malformed input or if the message is not a relay.
\<close>

fun DecapsulateRelay_spec :: "('m Option, 'm, string) decapsulate" where
  "DecapsulateRelay_spec (Message m) = (None, Some ''not a relay'')"
| "DecapsulateRelay_spec (Relay r) =
     (case GetOneOption OptionCode_of r OPTION_RELAY_MSG of
        Some (OptRelayMsg inner) \<Rightarrow> (Some inner, None)
      | _ \<Rightarrow> (None, Some ''no relay message''))"

text \<open>
  Modelled from the spec: \<open>EncapsulateRelay\<close> is outside this file. It wraps the message
  in one new relay envelope of the given type and addresses; the hop count counts the
  relay layers between the envelope and the client.
\<close>

fun EncapsulateRelay_spec :: "('m Option, 'm, string) encapsulate" where
  "EncapsulateRelay_spec None mType link peer = (None, Some ''nil message'')"
| "EncapsulateRelay_spec (Some (Message m)) mType link peer =
     (Some (DHCPv6Relay mType 0 link peer [OptRelayMsg (Message m)]), None)"
| "EncapsulateRelay_spec (Some (Relay r)) mType link peer =
     (Some (DHCPv6Relay mType (hopCount r + 1) link peer [OptRelayMsg (Relay r)]), None)"

subsection \<open>Sample options and envelopes\<close>

text \<open>
  Modelled from the spec: the implementations of \<open>Option\<close> are outside this file. The
  sample option is the TLV of the wire format table (2-byte code, 2-byte length,
  payload), given as a pair of code and payload. It only feeds concrete instances.
\<close>

definition tlvToBytes :: "OptionCode \<times> byte list \<Rightarrow> byte list" where
  "tlvToBytes opt =
     [ucast (drop_bit 8 (fst opt)), ucast (fst opt),
      ucast (drop_bit 8 (word_of_nat (length (snd opt)) :: 16 word)),
      ucast (word_of_nat (length (snd opt)) :: 16 word)] @ snd opt"

definition tlvLength :: "OptionCode \<times> byte list \<Rightarrow> go_int" where
  "tlvLength opt = word_of_nat (length (snd opt))"

definition sample_relay :: "(OptionCode \<times> byte list) DHCPv6Relay" where
  "sample_relay = DHCPv6Relay 12 1 [0xfe, 0x80] [] [(18, [1, 2, 3]), (37, []), (18, [9])]"

definition empty_relay :: "(OptionCode \<times> byte list) DHCPv6Relay" where
  "empty_relay = DHCPv6Relay 13 0 [] [] []"

definition long_relay :: "(OptionCode \<times> byte list) DHCPv6Relay" where
  "long_relay = DHCPv6Relay 12 0 (map word_of_nat [1..<21]) (map word_of_nat [101..<118]) [(18, [7])]"

definition dup_relay :: "(OptionCode \<times> byte list) DHCPv6Relay" where
  "dup_relay = DHCPv6Relay 12 0 [] [] [(37, [1]), (18, [2]), (37, [3]), (18, [4])]"

text \<open>
  Sample chains over the primitives above. \<open>outer_forw\<close> wraps \<open>inner_forw\<close>, which
  carries an interface-id option and wraps the client message; the hop counts are those
  that relay agents write (0 at the relay next to the client). In \<open>cut_outer\<close> the inner
  envelope has lost its relay-message option.
\<close>

definition A1 :: IP where "A1 = replicate 15 0 @ [1]"
definition A2 :: IP where "A2 = replicate 15 0 @ [2]"
definition A3 :: IP where "A3 = replicate 15 0 @ [3]"

definition inner_forw :: "string Option DHCPv6Relay" where
  "inner_forw =
     DHCPv6Relay RELAY_FORW 0 A2 A3 [OptInterfaceId [0x58], OptRelayMsg (Message ''C'')]"

definition outer_forw :: "string Option DHCPv6Relay" where
  "outer_forw = DHCPv6Relay RELAY_FORW 1 A1 A2 [OptRelayMsg (Relay inner_forw)]"

definition cut_inner :: "string Option DHCPv6Relay" where
  "cut_inner = DHCPv6Relay RELAY_FORW 0 A2 A3 [OptInterfaceId [0x58]]"

definition cut_outer :: "string Option DHCPv6Relay" where
  "cut_outer = DHCPv6Relay RELAY_FORW 1 A1 A2 [OptRelayMsg (Relay cut_inner)]"

text \<open>
  More two-hop chains around \<open>inner_forw\<close>, with other hop counts on the outer
  envelope: \<open>spec_outer\<close> and \<open>spec_inner\<close> carry the hop counts 2 and 1, \<open>over_outer\<close>
  the hop count 3 and \<open>under_outer\<close> the hop count 0. \<open>lone_forw\<close> is a chain of depth 1
  with hop count 1.
\<close>

definition spec_inner :: "string Option DHCPv6Relay" where
  "spec_inner =
     DHCPv6Relay RELAY_FORW 1 A2 A3 [OptInterfaceId [0x58], OptRelayMsg (Message ''C'')]"

definition spec_outer :: "string Option DHCPv6Relay" where
  "spec_outer = DHCPv6Relay RELAY_FORW 2 A1 A2 [OptRelayMsg (Relay spec_inner)]"

definition over_outer :: "string Option DHCPv6Relay" where
  "over_outer = DHCPv6Relay RELAY_FORW 3 A1 A2 [OptRelayMsg (Relay inner_forw)]"

definition under_outer :: "string Option DHCPv6Relay" where
  "under_outer = DHCPv6Relay RELAY_FORW 0 A1 A2 [OptRelayMsg (Relay inner_forw)]"

definition lone_forw :: "string Option DHCPv6Relay" where
  "lone_forw = DHCPv6Relay RELAY_FORW 1 A2 A3 [OptRelayMsg (Message ''C'')]"

text \<open>
  The reply chain that mirrors \<open>outer_forw\<close> around the answer message, and a relay
  envelope of type \<open>RELAY_REPL\<close>.
\<close>

definition inner_repl :: "string Option DHCPv6Relay" where
  "inner_repl =
     DHCPv6Relay RELAY_REPL 0 A2 A3 [OptRelayMsg (Message ''R''), OptInterfaceId [0x58]]"

definition outer_repl :: "string Option DHCPv6Relay" where
  "outer_repl = DHCPv6Relay RELAY_REPL 1 A1 A2 [OptRelayMsg (Relay inner_repl)]"

definition repl_relay :: "string Option DHCPv6Relay" where
  "repl_relay = DHCPv6Relay RELAY_REPL 0 A2 A3 [OptRelayMsg (Message ''C'')]"

section \<open>Properties of the wire encoding\<close>

lemma foldl_update_length:
  "length (foldl (\<lambda>acc i. acc[lo + i := src ! i]) ret is) = length ret"
  by (induction "is" arbitrary: ret) simp_all

lemma copy_slice_length: "length (copy_slice ret lo hi src) = length ret"
  by (simp add: copy_slice_def foldl_update_length)

lemma foldl_update_nth:
  "j < length ret \<Longrightarrow>
   foldl (\<lambda>acc i. acc[lo + i := src ! i]) ret [0..<n] ! j =
     (if lo \<le> j \<and> j < lo + n then src ! (j - lo) else ret ! j)"
proof (induction n)
  case 0
  then show ?case by auto
next
  case (Suc n)
  have len: "length (foldl (\<lambda>acc i. acc[lo + i := src ! i]) ret [0..<n]) = length ret"
    by (rule foldl_update_length)
  show ?case
  proof (cases "j = lo + n")
    case True
    with Suc.prems len show ?thesis by simp
  next
    case False
    with Suc show ?thesis by (auto simp: nth_list_update)
  qed
qed

lemma copy_slice_nth:
  "j < length ret \<Longrightarrow>
   copy_slice ret lo hi src ! j =
     (if lo \<le> j \<and> j < lo + min (hi - lo) (length src) then src ! (j - lo) else ret ! j)"
  unfolding copy_slice_def by (rule foldl_update_nth)

lemma foldl_append_concat:
  "foldl (\<lambda>ret opt. ret @ f opt) acc xs = acc @ concat (map f xs)"
  by (induction xs arbitrary: acc) simp_all

lemma ToBytes_split: "ToBytes f r = header r @ concat (map f (options r))"
  by (simp add: ToBytes_def header_def Let_def foldl_append_concat)

lemma header_length: "length (header r) = 34"
  by (simp add: header_def copy_slice_length make_bytes_def RelayHeaderSize_def)

lemma header_0: "header r ! 0 = messageType r"
  by (simp add: header_def copy_slice_nth copy_slice_length make_bytes_def RelayHeaderSize_def)

lemma header_1: "header r ! 1 = hopCount r"
  by (simp add: header_def copy_slice_nth copy_slice_length make_bytes_def RelayHeaderSize_def)

lemma header_link:
  "i < 16 \<Longrightarrow> header r ! (2 + i) = (if i < length (linkAddr r) then linkAddr r ! i else 0)"
  by (simp add: header_def copy_slice_nth copy_slice_length make_bytes_def RelayHeaderSize_def)

lemma header_peer:
  "i < 16 \<Longrightarrow> header r ! (18 + i) = (if i < length (peerAddr r) then peerAddr r ! i else 0)"
  by (simp add: header_def copy_slice_nth copy_slice_length make_bytes_def RelayHeaderSize_def)

lemma Length_sum:
  "foldl (\<lambda>mLen opt. mLen + (g opt + 4)) acc xs = acc + (\<Sum>opt\<leftarrow>xs. g opt + (4::go_int))"
  by (induction xs arbitrary: acc) (simp_all add: add.assoc)

lemma contract_word:
  "OptionContract f g opt \<Longrightarrow> g opt + 4 = (word_of_nat (length (f opt)) :: go_int)"
proof -
  assume "OptionContract f g opt"
  then have "int (length (f opt)) = sint (g opt) + 4" by (simp add: OptionContract_def)
  then have "(word_of_int (int (length (f opt))) :: go_int) = word_of_int (sint (g opt) + 4)" by simp
  then show ?thesis by simp
qed

lemma contract_sum:
  "\<forall>opt\<in>set xs. OptionContract f g opt \<Longrightarrow>
   (\<Sum>opt\<leftarrow>xs. g opt + (4::go_int)) = word_of_nat (length (concat (map f xs)))"
  by (induction xs) (simp_all add: contract_word)

lemma contract_sum_int:
  "\<forall>opt\<in>set xs. OptionContract f g opt \<Longrightarrow>
   (\<Sum>opt\<leftarrow>xs. sint (g opt) + 4) = int (length (concat (map f xs)))"
  by (induction xs) (simp_all add: OptionContract_def)

lemma sint_word_of_nat:
  assumes "n < 2 ^ 63"
  shows "sint (word_of_nat n :: go_int) = int n"
proof -
  have "(word_of_nat n :: go_int) = word_of_int (int n)" by simp
  then have "sint (word_of_nat n :: go_int) = signed_take_bit (LENGTH(64) - 1) (int n)"
    by (simp only: sint_sbintrunc')
  also have "\<dots> = int n"
    using assms by (intro signed_take_bit_int_eq_self) simp_all
  finally show ?thesis .
qed

lemma sample_contract:
  "\<forall>opt\<in>set (options sample_relay). OptionContract tlvToBytes tlvLength opt"
  by (simp add: sample_relay_def OptionContract_def tlvToBytes_def tlvLength_def)

lemma sample_link_field:
  "take 16 (drop 2 (ToBytes tlvToBytes sample_relay)) = [0xfe, 0x80] @ replicate 14 0"
  by code_simp

lemma sample_peer_field:
  "take 16 (drop 18 (ToBytes tlvToBytes sample_relay)) = replicate 16 0"
  by code_simp

lemma sample_len: "length (ToBytes tlvToBytes sample_relay) = 50"
  by code_simp

lemma empty_bytes: "length (ToBytes tlvToBytes empty_relay) = 34"
  by code_simp

lemma copy_slice_take:
  "copy_slice ret lo hi (take (hi - lo) src) = copy_slice ret lo hi src"
proof -
  have "\<And>n acc. n \<le> hi - lo \<Longrightarrow>
      foldl (\<lambda>acc i. acc[lo + i := take (hi - lo) src ! i]) acc [0..<n] =
      foldl (\<lambda>acc i. acc[lo + i := src ! i]) acc [0..<n]"
    by (rule foldl_cong) auto
  then show ?thesis by (simp add: copy_slice_def min_def)
qed

lemma header_take:
  "header (DHCPv6Relay mt hc (take 16 l) (take 16 p) os) = header (DHCPv6Relay mt hc l p os)"
  using copy_slice_take [of _ 2 18 l] copy_slice_take [of _ 18 34 p]
  by (simp add: header_def)

lemma long_addresses:
  "16 < length (map word_of_nat [1..<21] :: byte list)"
  "16 < length (map word_of_nat [101..<118] :: byte list)"
  "take 16 (map word_of_nat [1..<21] :: byte list) = map word_of_nat [1..<17]"
  "take 16 (map word_of_nat [101..<118] :: byte list) = map word_of_nat [101..<117]"
  by (simp_all add: take_map)

text \<open>
  Claim C5. For every relay envelope, \<open>ToBytes\<close> produces 34 bytes of header followed by
  the options' own encodings in list order, with nothing in between: byte 0 is the
  message type, byte 1 the hop count, bytes 2-17 the link address and bytes 18-33 the
  peer address, each address field holding zeros where the stored address is shorter
  than 16 bytes or absent. The total is 34 bytes plus the lengths of the options'
  encodings, which under the \<open>Option\<close> contract is \<open>34 + \<Sum>(Length + 4)\<close> bytes.
\<close>

theorem ToBytes_layout:
  "length (ToBytes optToBytes r) = 34 + (\<Sum>opt\<leftarrow>options r. length (optToBytes opt))
   \<and> ((\<forall>opt\<in>set (options r). OptionContract optToBytes optLength opt) \<longrightarrow>
        int (length (ToBytes optToBytes r)) =
          34 + (\<Sum>opt\<leftarrow>options r. sint (optLength opt) + 4))
   \<and> ToBytes optToBytes r ! 0 = messageType r
   \<and> ToBytes optToBytes r ! 1 = hopCount r
   \<and> (\<forall>i<16. ToBytes optToBytes r ! (2 + i) =
        (if i < length (linkAddr r) then linkAddr r ! i else 0))
   \<and> (\<forall>i<16. ToBytes optToBytes r ! (18 + i) =
        (if i < length (peerAddr r) then peerAddr r ! i else 0))
   \<and> drop 34 (ToBytes optToBytes r) = concat (map optToBytes (options r))"
proof -
  have bytes: "length (ToBytes optToBytes r) =
      34 + (\<Sum>opt\<leftarrow>options r. length (optToBytes opt))"
    by (simp add: ToBytes_split header_length length_concat comp_def)
  have len: "int (length (ToBytes optToBytes r)) =
      34 + (\<Sum>opt\<leftarrow>options r. sint (optLength opt) + 4)"
    if "\<forall>opt\<in>set (options r). OptionContract optToBytes optLength opt"
    using contract_sum_int [OF that] by (simp add: ToBytes_split header_length)
  have b0: "ToBytes optToBytes r ! 0 = messageType r"
    by (simp add: ToBytes_split nth_append header_length header_0)
  have b1: "ToBytes optToBytes r ! 1 = hopCount r"
    using header_1 [of r] by (simp add: ToBytes_split nth_append header_length)
  have link: "\<forall>i<16. ToBytes optToBytes r ! (2 + i) =
      (if i < length (linkAddr r) then linkAddr r ! i else 0)"
  proof (intro allI impI)
    fix i :: nat
    assume i: "i < 16"
    then have "ToBytes optToBytes r ! (2 + i) = header r ! (2 + i)"
      by (simp add: ToBytes_split nth_append header_length)
    with header_link [OF i, of r]
    show "ToBytes optToBytes r ! (2 + i) =
        (if i < length (linkAddr r) then linkAddr r ! i else 0)"
      by simp
  qed
  have peer: "\<forall>i<16. ToBytes optToBytes r ! (18 + i) =
      (if i < length (peerAddr r) then peerAddr r ! i else 0)"
  proof (intro allI impI)
    fix i :: nat
    assume i: "i < 16"
    then have "ToBytes optToBytes r ! (18 + i) = header r ! (18 + i)"
      by (simp add: ToBytes_split nth_append header_length)
    with header_peer [OF i, of r]
    show "ToBytes optToBytes r ! (18 + i) =
        (if i < length (peerAddr r) then peerAddr r ! i else 0)"
      by simp
  qed
  have opts: "drop 34 (ToBytes optToBytes r) = concat (map optToBytes (options r))"
    by (simp add: ToBytes_split header_length)
  from bytes len b0 b1 link peer opts show ?thesis by blast
qed

theorem ToBytes_layout_witness:
  "length (ToBytes tlvToBytes sample_relay) = 50
   \<and> ToBytes tlvToBytes sample_relay ! 0 = 12
   \<and> ToBytes tlvToBytes sample_relay ! 1 = 1
   \<and> take 16 (drop 2 (ToBytes tlvToBytes sample_relay)) = [0xfe, 0x80] @ replicate 14 0
   \<and> take 16 (drop 18 (ToBytes tlvToBytes sample_relay)) = replicate 16 0
   \<and> drop 34 (ToBytes tlvToBytes sample_relay) =
       [0, 18, 0, 3, 1, 2, 3] @ [0, 37, 0, 0] @ [0, 18, 0, 1, 9]"
proof -
  note layout = ToBytes_layout [of tlvToBytes sample_relay tlvLength]
  from layout sample_contract
  have "int (length (ToBytes tlvToBytes sample_relay)) =
      34 + (\<Sum>opt\<leftarrow>options sample_relay. sint (tlvLength opt) + 4)"
    by blast
  also have "(\<Sum>opt\<leftarrow>options sample_relay. sint (tlvLength opt) + 4) = 16"
    by (simp add: sample_relay_def tlvLength_def)
  finally have len: "length (ToBytes tlvToBytes sample_relay) = 50"
    by simp
  from layout have "ToBytes tlvToBytes sample_relay ! 0 = messageType sample_relay"
    and "ToBytes tlvToBytes sample_relay ! 1 = hopCount sample_relay"
    and "drop 34 (ToBytes tlvToBytes sample_relay) =
      concat (map tlvToBytes (options sample_relay))"
    by blast+
  then have rest: "ToBytes tlvToBytes sample_relay ! 0 = 12"
    "ToBytes tlvToBytes sample_relay ! 1 = 1"
    "drop 34 (ToBytes tlvToBytes sample_relay) =
       [0, 18, 0, 3, 1, 2, 3] @ [0, 37, 0, 0] @ [0, 18, 0, 1, 9]"
    by (simp_all add: sample_relay_def tlvToBytes_def)
  from len rest sample_link_field sample_peer_field show ?thesis
    by blast
qed

text \<open>
  Claim C6. For every relay envelope, with no option or with many, \<open>Length()\<close> equals
  \<open>len(ToBytes())\<close>, under the \<open>Option\<close> contract that an option's encoding is 4 bytes
  longer than its \<open>Length()\<close>. The equation holds in Go's \<open>int\<close>, and as numbers
  whenever the encoding is shorter than \<open>2^63\<close> bytes.
\<close>

theorem Length_eq_len_ToBytes:
  assumes "\<forall>opt\<in>set (options r). OptionContract optToBytes optLength opt"
  shows "Length optLength r = word_of_nat (length (ToBytes optToBytes r))
       \<and> (length (ToBytes optToBytes r) < 2 ^ 63 \<longrightarrow>
            sint (Length optLength r) = int (length (ToBytes optToBytes r)))"
proof -
  have eq: "Length optLength r = word_of_nat (length (ToBytes optToBytes r))"
    using contract_sum [OF assms]
    by (simp add: Length_def Length_sum ToBytes_split header_length RelayHeaderSize_def)
  then show ?thesis by (simp add: sint_word_of_nat)
qed

theorem Length_eq_len_ToBytes_witness:
  "Length tlvLength sample_relay = word_of_nat (length (ToBytes tlvToBytes sample_relay))
   \<and> sint (Length tlvLength sample_relay) = 50
   \<and> length (ToBytes tlvToBytes sample_relay) = 50
   \<and> sint (Length tlvLength empty_relay) = 34
   \<and> length (ToBytes tlvToBytes empty_relay) = 34"
proof -
  have many: "Length tlvLength sample_relay =
      word_of_nat (length (ToBytes tlvToBytes sample_relay))"
    using Length_eq_len_ToBytes [OF sample_contract] by blast
  have none: "Length tlvLength empty_relay = word_of_nat (length (ToBytes tlvToBytes empty_relay))"
    using Length_eq_len_ToBytes [of empty_relay tlvToBytes tlvLength]
    by (simp add: empty_relay_def)
  from many none show ?thesis
    by (simp add: sample_len empty_bytes)
qed

text \<open>
  Claim C10. An address longer than 16 bytes is cut to its first 16 bytes by
  \<open>ToBytes\<close>: the encoding is that of the envelope with both addresses truncated, the
  link field (offsets 2-17) and the peer field (offsets 18-33) hold the first 16 bytes,
  the header stays 34 bytes, the options follow at offset 34, and \<open>Length()\<close> does not
  depend on the stored addresses.
\<close>

theorem ToBytes_truncates_long_addresses:
  "ToBytes optToBytes (DHCPv6Relay mt hc l p os) =
     ToBytes optToBytes (DHCPv6Relay mt hc (take 16 l) (take 16 p) os)
   \<and> (16 < length l \<longrightarrow>
        take 16 (drop 2 (ToBytes optToBytes (DHCPv6Relay mt hc l p os))) = take 16 l)
   \<and> (16 < length p \<longrightarrow>
        take 16 (drop 18 (ToBytes optToBytes (DHCPv6Relay mt hc l p os))) = take 16 p)
   \<and> length (take 34 (ToBytes optToBytes (DHCPv6Relay mt hc l p os))) = 34
   \<and> drop 34 (ToBytes optToBytes (DHCPv6Relay mt hc l p os)) = concat (map optToBytes os)
   \<and> Length optLength (DHCPv6Relay mt hc l p os) = Length optLength (DHCPv6Relay mt hc l' p' os)"
proof -
  let ?r = "DHCPv6Relay mt hc l p os"
  have trunc: "ToBytes optToBytes ?r =
      ToBytes optToBytes (DHCPv6Relay mt hc (take 16 l) (take 16 p) os)"
    by (simp add: ToBytes_split header_take)
  have link: "take 16 (drop 2 (ToBytes optToBytes ?r)) = take 16 l" if "16 < length l"
  proof (rule nth_equalityI)
    show "length (take 16 (drop 2 (ToBytes optToBytes ?r))) = length (take 16 l)"
      using that by (simp add: ToBytes_split header_length)
  next
    fix i assume "i < length (take 16 (drop 2 (ToBytes optToBytes ?r)))"
    then have i: "i < 16" by simp
    with header_link [OF i, of ?r] that
    show "take 16 (drop 2 (ToBytes optToBytes ?r)) ! i = take 16 l ! i"
      by (simp add: ToBytes_split header_length nth_append)
  qed
  have peer: "take 16 (drop 18 (ToBytes optToBytes ?r)) = take 16 p" if "16 < length p"
  proof (rule nth_equalityI)
    show "length (take 16 (drop 18 (ToBytes optToBytes ?r))) = length (take 16 p)"
      using that by (simp add: ToBytes_split header_length)
  next
    fix i assume "i < length (take 16 (drop 18 (ToBytes optToBytes ?r)))"
    then have i: "i < 16" by simp
    with header_peer [OF i, of ?r] that
    show "take 16 (drop 18 (ToBytes optToBytes ?r)) ! i = take 16 p ! i"
      by (simp add: ToBytes_split header_length nth_append)
  qed
  have hdr: "length (take 34 (ToBytes optToBytes ?r)) = 34"
    by (simp add: ToBytes_split header_length)
  have opts: "drop 34 (ToBytes optToBytes ?r) = concat (map optToBytes os)"
    by (simp add: ToBytes_split header_length)
  have len: "Length optLength ?r = Length optLength (DHCPv6Relay mt hc l' p' os)"
    by (simp add: Length_def)
  from trunc link peer hdr opts len show ?thesis by blast
qed

theorem ToBytes_truncates_long_addresses_witness:
  "take 16 (drop 2 (ToBytes tlvToBytes long_relay)) = map word_of_nat [1..<17]
   \<and> take 16 (drop 18 (ToBytes tlvToBytes long_relay)) = map word_of_nat [101..<117]
   \<and> length (take 34 (ToBytes tlvToBytes long_relay)) = 34
   \<and> drop 34 (ToBytes tlvToBytes long_relay) = [0, 18, 0, 1, 7]
   \<and> Length tlvLength long_relay = Length tlvLength (DHCPv6Relay 12 0 [] [] [(18, [7])])"
proof -
  note th = ToBytes_truncates_long_addresses
    [of tlvToBytes 12 0 "map word_of_nat [1..<21]" "map word_of_nat [101..<118]"
      "[(18, [7])]" tlvLength "[]" "[]", folded long_relay_def]
  from th long_addresses(1,2)
  have "take 16 (drop 2 (ToBytes tlvToBytes long_relay)) = take 16 (map word_of_nat [1..<21])"
    and "take 16 (drop 18 (ToBytes tlvToBytes long_relay)) =
      take 16 (map word_of_nat [101..<118])"
    and "drop 34 (ToBytes tlvToBytes long_relay) = concat (map tlvToBytes [(18, [7])])"
    and "Length tlvLength long_relay = Length tlvLength (DHCPv6Relay 12 0 [] [] [(18, [7])])"
    and "length (take 34 (ToBytes tlvToBytes long_relay)) = 34"
    by blast+
  moreover have "concat (map tlvToBytes [(18, [7])]) = [0, 18, 0, 1, 7]"
    by (simp add: tlvToBytes_def)
  ultimately show ?thesis
    by (simp only: long_addresses(3,4) simp_thms)
qed

section \<open>Properties of option management\<close>

lemma UpdateOption_loop_None:
  "\<forall>opt\<in>set rest. Code opt \<noteq> Code option \<Longrightarrow>
   UpdateOption_loop Code opts option idx rest = None"
  by (induction rest arbitrary: idx) simp_all

lemma UpdateOption_loop_Some:
  "\<exists>opt\<in>set rest. Code opt = Code option \<Longrightarrow>
   \<exists>i<length rest. Code (rest ! i) = Code option
      \<and> (\<forall>j<i. Code (rest ! j) \<noteq> Code option)
      \<and> UpdateOption_loop Code opts option idx rest = Some (opts[idx + i := option])"
proof (induction rest arbitrary: idx)
  case Nil
  then show ?case by simp
next
  case (Cons opt rest)
  show ?case
  proof (cases "Code opt = Code option")
    case True
    then have "Code ((opt # rest) ! 0) = Code option
      \<and> (\<forall>j<0. Code ((opt # rest) ! j) \<noteq> Code option)
      \<and> UpdateOption_loop Code opts option idx (opt # rest) = Some (opts[idx + 0 := option])"
      by simp
    then show ?thesis by blast
  next
    case False
    with Cons.prems have "\<exists>opt\<in>set rest. Code opt = Code option" by simp
    from Cons.IH [OF this, of "Suc idx"] obtain i where i: "i < length rest"
      "Code (rest ! i) = Code option" "\<forall>j<i. Code (rest ! j) \<noteq> Code option"
      "UpdateOption_loop Code opts option (Suc idx) rest = Some (opts[Suc idx + i := option])"
      by blast
    have "\<forall>j<Suc i. Code ((opt # rest) ! j) \<noteq> Code option"
      using False i(3) by (auto simp: less_Suc_eq_0_disj)
    with i False have "Suc i < length (opt # rest) \<and> Code ((opt # rest) ! Suc i) = Code option
      \<and> (\<forall>j<Suc i. Code ((opt # rest) ! j) \<noteq> Code option)
      \<and> UpdateOption_loop Code opts option idx (opt # rest) = Some (opts[idx + Suc i := option])"
      by simp
    then show ?thesis by blast
  qed
qed

text \<open>
  Claim C7. If no stored option has the code of \<open>opt\<close>, \<open>UpdateOption\<close> leaves what
  \<open>AddOption\<close> leaves: \<open>opt\<close> appended at the end. If some stored option has that
  code, \<open>UpdateOption\<close> replaces the first of them, at its position, and every other
  position of the list, later options of the same code included, keeps its option. The
  other fields of the envelope are never touched.
\<close>

theorem UpdateOption_first_match:
  "((\<forall>o'\<in>set (options r). Code o' \<noteq> Code opt) \<longrightarrow>
      UpdateOption Code r opt = AddOption r opt
      \<and> options (UpdateOption Code r opt) = options r @ [opt])
   \<and> ((\<exists>o'\<in>set (options r). Code o' = Code opt) \<longrightarrow>
      (\<exists>i<length (options r).
          Code (options r ! i) = Code opt
        \<and> (\<forall>j<i. Code (options r ! j) \<noteq> Code opt)
        \<and> options (UpdateOption Code r opt) = (options r)[i := opt]
        \<and> length (options (UpdateOption Code r opt)) = length (options r)
        \<and> options (UpdateOption Code r opt) ! i = opt
        \<and> (\<forall>j<length (options r). j \<noteq> i \<longrightarrow>
              options (UpdateOption Code r opt) ! j = options r ! j)))
   \<and> messageType (UpdateOption Code r opt) = messageType r
   \<and> hopCount (UpdateOption Code r opt) = hopCount r
   \<and> linkAddr (UpdateOption Code r opt) = linkAddr r
   \<and> peerAddr (UpdateOption Code r opt) = peerAddr r"
proof -
  have absent: "UpdateOption Code r opt = AddOption r opt
      \<and> options (UpdateOption Code r opt) = options r @ [opt]"
    if "\<forall>o'\<in>set (options r). Code o' \<noteq> Code opt"
    using UpdateOption_loop_None [OF that, of "options r" 0]
    by (simp add: UpdateOption_def AddOption_def SetOptions_def)
  have present: "\<exists>i<length (options r).
          Code (options r ! i) = Code opt
        \<and> (\<forall>j<i. Code (options r ! j) \<noteq> Code opt)
        \<and> options (UpdateOption Code r opt) = (options r)[i := opt]
        \<and> length (options (UpdateOption Code r opt)) = length (options r)
        \<and> options (UpdateOption Code r opt) ! i = opt
        \<and> (\<forall>j<length (options r). j \<noteq> i \<longrightarrow>
              options (UpdateOption Code r opt) ! j = options r ! j)"
    if "\<exists>o'\<in>set (options r). Code o' = Code opt"
  proof -
    from UpdateOption_loop_Some [OF that, of "options r" 0] obtain i where i:
      "i < length (options r)" "Code (options r ! i) = Code opt"
      "\<forall>j<i. Code (options r ! j) \<noteq> Code opt"
      "UpdateOption_loop Code (options r) opt 0 (options r) = Some ((options r)[i := opt])"
      by auto
    then have "options (UpdateOption Code r opt) = (options r)[i := opt]"
      by (simp add: UpdateOption_def SetOptions_def)
    with i show ?thesis by (intro exI [of _ i]) simp
  qed
  have fields: "messageType (UpdateOption Code r opt) = messageType r
   \<and> hopCount (UpdateOption Code r opt) = hopCount r
   \<and> linkAddr (UpdateOption Code r opt) = linkAddr r
   \<and> peerAddr (UpdateOption Code r opt) = peerAddr r"
    by (simp add: UpdateOption_def AddOption_def SetOptions_def split: option.split)
  from absent present fields show ?thesis by blast
qed

theorem UpdateOption_first_match_witness:
  "UpdateOption fst dup_relay (18, [9]) =
     DHCPv6Relay 12 0 [] [] [(37, [1]), (18, [9]), (37, [3]), (18, [4])]
   \<and> UpdateOption fst dup_relay (8, [9]) = AddOption dup_relay (8, [9])
   \<and> options (UpdateOption fst dup_relay (8, [9])) =
       [(37, [1]), (18, [2]), (37, [3]), (18, [4]), (8, [9])]"
proof -
  let ?os = "[(37, [1]), (18, [2]), (37, [3]), (18, [4])] :: (OptionCode \<times> byte list) list"
  have os: "options dup_relay = ?os" by (simp add: dup_relay_def)
  have "\<forall>o'\<in>set (options dup_relay). fst o' \<noteq> fst ((8, [9]) :: OptionCode \<times> byte list)"
    by (simp add: dup_relay_def)
  with UpdateOption_first_match [of dup_relay fst "(8, [9])"]
  have absent: "UpdateOption fst dup_relay (8, [9]) = AddOption dup_relay (8, [9])"
    "options (UpdateOption fst dup_relay (8, [9])) = options dup_relay @ [(8, [9])]"
    by blast+
  have "\<exists>o'\<in>set (options dup_relay). fst o' = fst ((18, [9]) :: OptionCode \<times> byte list)"
    by (simp add: dup_relay_def)
  with UpdateOption_first_match [of dup_relay fst "(18, [9])"] obtain i where i:
    "i < length (options dup_relay)" "fst (options dup_relay ! i) = fst ((18, [9]) :: OptionCode \<times> byte list)"
    "\<forall>j<i. fst (options dup_relay ! j) \<noteq> fst ((18, [9]) :: OptionCode \<times> byte list)"
    "options (UpdateOption fst dup_relay (18, [9])) = (options dup_relay)[i := (18, [9])]"
    by blast
  from i(1) os consider "i = 0" | "i = 1" | "i = 2" | "i = 3" by fastforce
  then have "i = 1"
  proof cases
    case 2
    then show ?thesis .
  next
    case 4
    with i(3) have "fst (options dup_relay ! 1) \<noteq> fst ((18, [9]) :: OptionCode \<times> byte list)"
      by simp
    then show ?thesis by (simp add: os)
  qed (use i(2) os in simp_all)
  with i(4) os have "options (UpdateOption fst dup_relay (18, [9])) =
      [(37, [1]), (18, [9]), (37, [3]), (18, [4])]"
    by simp
  moreover from UpdateOption_first_match [of dup_relay fst "(18, [9])"]
  have "messageType (UpdateOption fst dup_relay (18, [9])) = messageType dup_relay"
    "hopCount (UpdateOption fst dup_relay (18, [9])) = hopCount dup_relay"
    "linkAddr (UpdateOption fst dup_relay (18, [9])) = linkAddr dup_relay"
    "peerAddr (UpdateOption fst dup_relay (18, [9])) = peerAddr dup_relay"
    by blast+
  ultimately have present: "UpdateOption fst dup_relay (18, [9]) =
     DHCPv6Relay 12 0 [] [] [(37, [1]), (18, [9]), (37, [3]), (18, [4])]"
    by (cases "UpdateOption fst dup_relay (18, [9])") (simp add: dup_relay_def)
  from absent present show ?thesis by (simp add: dup_relay_def)
qed

section \<open>Properties of the chain walks\<close>

lemma GetInnerMessage_loop_chain:
  "chain Dec p es leaf \<Longrightarrow>
   GetInnerMessage_loop Dec p n = Some (Return (Some leaf, None), n + length es)"
proof (induction es arbitrary: p n)
  case Nil
  then show ?case by (subst GetInnerMessage_loop.simps) auto
next
  case (Cons e es)
  from Cons.prems obtain q where p: "p = Relay e" and dec: "Dec p = (Some q, None)"
    and rest: "chain Dec q es leaf"
    by (auto split: prod.splits option.splits)
  from Cons.IH [OF rest, of "Suc n"] p dec show ?case
    by (subst GetInnerMessage_loop.simps) simp
qed

lemma GetInnerMessage_loop_broken:
  "broken_chain Dec p es err \<Longrightarrow>
   GetInnerMessage_loop Dec p n = Some (Return (None, Some (External err)), n + length es)"
proof (induction es arbitrary: p n)
  case Nil
  then show ?case by simp
next
  case (Cons e es)
  from Cons.prems have p: "p = Relay e" by simp
  show ?case
  proof (cases "Dec p")
    case (Pair v x)
    show ?thesis
    proof (cases x)
      case (Some x')
      with Pair Cons.prems p have "es = []" "x' = err" by (auto split: option.splits)
      with Pair Some p show ?thesis
        by (subst GetInnerMessage_loop.simps) (simp split: option.split)
    next
      case None
      with Pair Cons.prems p obtain q where v: "v = Some q" and rest: "broken_chain Dec q es err"
        by (cases v) auto
      from Cons.IH [OF rest, of "Suc n"] Pair None v p show ?thesis
        by (subst GetInnerMessage_loop.simps) simp
    qed
  qed
qed

lemma forw_chain:
  "chain DecapsulateRelay_spec (Relay outer_forw) [outer_forw, inner_forw] (Message ''C'')"
  by (simp add: outer_forw_def inner_forw_def GetOneOption_def OPTION_RELAY_MSG_def
      OPTION_INTERFACE_ID_def)

lemma cut_chain:
  "broken_chain DecapsulateRelay_spec (Relay cut_outer) [cut_outer, cut_inner] ''no relay message''"
  by (simp add: cut_outer_def cut_inner_def GetOneOption_def OPTION_RELAY_MSG_def
      OPTION_INTERFACE_ID_def)

text \<open>
  Claim C3. On a chain of depth \<open>D\<close> (\<open>D\<close> relay envelopes around one leaf message),
  \<open>GetInnerMessage\<close> returns the leaf message after exactly \<open>D\<close> calls of
  \<open>DecapsulateRelay\<close>; if \<open>DecapsulateRelay\<close> fails at some hop, \<open>GetInnerMessage\<close>
  returns that error and no message. Both hold for every \<open>DecapsulateRelay\<close>.
\<close>

theorem GetInnerMessage_returns_leaf:
  "(chain DecapsulateRelay (Relay d) es leaf \<longrightarrow>
      GetInnerMessage DecapsulateRelay d = Some (Return (Some leaf, None), length es))
   \<and> (broken_chain DecapsulateRelay (Relay d) es err \<longrightarrow>
      GetInnerMessage DecapsulateRelay d = Some (Return (None, Some (External err)), length es))"
  using GetInnerMessage_loop_chain [of DecapsulateRelay "Relay d" es leaf 0]
    GetInnerMessage_loop_broken [of DecapsulateRelay "Relay d" es err 0]
  by (simp add: GetInnerMessage_def)

theorem GetInnerMessage_returns_leaf_witness:
  "GetInnerMessage DecapsulateRelay_spec outer_forw = Some (Return (Some (Message ''C''), None), 2)
   \<and> GetInnerMessage DecapsulateRelay_spec cut_outer =
       Some (Return (None, Some (External ''no relay message'')), 2)"
  using GetInnerMessage_returns_leaf
      [where DecapsulateRelay = DecapsulateRelay_spec and d = outer_forw
        and es = "[outer_forw, inner_forw]" and leaf = "Message ''C''"]
    GetInnerMessage_returns_leaf
      [where DecapsulateRelay = DecapsulateRelay_spec and d = cut_outer
        and es = "[cut_outer, cut_inner]" and err = "''no relay message''"]
    forw_chain cut_chain
  by simp

subsection \<open>The inner peer address\<close>

lemma unat_succ_below:
  fixes i hops :: "8 word"
  assumes "i < hops"
  shows "unat (i + 1) = Suc (unat i)" and "i + 1 \<le> hops"
proof -
  from assms have less: "unat i < unat hops" by (simp add: word_less_nat_alt)
  then show "unat (i + 1) = Suc (unat i)"
    using unsigned_less [of hops, where ?'a = nat] by (simp add: unat_word_ariths)
  with less show "i + 1 \<le> hops" by (simp add: word_le_nat_alt)
qed

lemma GetInnerPeerAddr_loop_chain:
  "chain Dec (Relay e) (e # es) leaf \<Longrightarrow> i \<le> hops \<Longrightarrow>
   GetInnerPeerAddr_loop Dec hops i (Relay e) (peerAddr e) n =
     (if unat hops - unat i < length (e # es)
      then (Return (peerAddr ((e # es) ! (unat hops - unat i)), None), n + (unat hops - unat i))
      else (Return ([], Some WrongHopCount), n + length (e # es)))"
proof (induction es arbitrary: e i n)
  case Nil
  from Nil.prems(1) have dec: "Dec (Relay e) = (Some leaf, None)" and leaf: "\<not> IsRelay leaf"
    by (auto split: prod.splits option.splits)
  from leaf obtain m where m: "leaf = Message m" by (cases leaf) simp_all
  show ?case
  proof (cases "i < hops")
    case True
    then have "unat i < unat hops" by (simp add: word_less_nat_alt)
    with True dec m show ?thesis
      by (subst GetInnerPeerAddr_loop.simps) simp
  next
    case False
    with Nil.prems(2) have "i = hops" by simp
    then show ?thesis by (subst GetInnerPeerAddr_loop.simps) simp
  qed
next
  case (Cons e' es)
  from Cons.prems(1) have dec: "Dec (Relay e) = (Some (Relay e'), None)"
    and rest: "chain Dec (Relay e') (e' # es) leaf"
    by (auto split: prod.splits option.splits)
  show ?case
  proof (cases "i < hops")
    case True
    then have less: "unat i < unat hops" by (simp add: word_less_nat_alt)
    note succ = unat_succ_below [OF True]
    from less succ(1) have k: "unat hops - unat (i + 1) = unat hops - unat i - 1"
      "0 < unat hops - unat i"
      by simp_all
    have "GetInnerPeerAddr_loop Dec hops i (Relay e) (peerAddr e) n =
        GetInnerPeerAddr_loop Dec hops (i + 1) (Relay e') (peerAddr e') (Suc n)"
      using True dec by (subst GetInnerPeerAddr_loop.simps) simp
    also note Cons.IH [OF rest succ(2), of "Suc n"]
    finally show ?thesis
      using k by (cases "unat hops - unat i") auto
  next
    case False
    with Cons.prems(2) have "i = hops" by simp
    then show ?thesis by (subst GetInnerPeerAddr_loop.simps) simp
  qed
qed

lemma chain_head: "chain Dec (Relay r) es leaf \<Longrightarrow> \<exists>es'. es = r # es'"
  by (cases es) auto

lemma GetInnerPeerAddr_chain:
  assumes "chain Dec (Relay r) es leaf"
  shows "GetInnerPeerAddr Dec r =
     (if unat (hopCount r) < length es
      then (Return (peerAddr (es ! unat (hopCount r)), None), unat (hopCount r))
      else (Return ([], Some WrongHopCount), length es))"
proof -
  from chain_head [OF assms] obtain es' where es: "es = r # es'" by blast
  with assms have "chain Dec (Relay r) (r # es') leaf" by simp
  from GetInnerPeerAddr_loop_chain [OF this, of 0 "hopCount r" 0] es show ?thesis
    by (simp add: GetInnerPeerAddr_def)
qed

lemma GetInnerPeerAddr_zero:
  "hopCount r = 0 \<Longrightarrow> GetInnerPeerAddr Dec r = (Return (peerAddr r, None), 0)"
  by (simp add: GetInnerPeerAddr_def GetInnerPeerAddr_loop.simps)

lemmas sample_chain_simps =
  GetOneOption_def OPTION_RELAY_MSG_def OPTION_INTERFACE_ID_def

lemma spec_chain:
  "chain DecapsulateRelay_spec (Relay spec_outer) [spec_outer, spec_inner] (Message ''C'')"
  by (simp add: spec_outer_def spec_inner_def sample_chain_simps)

lemma over_chain:
  "chain DecapsulateRelay_spec (Relay over_outer) [over_outer, inner_forw] (Message ''C'')"
  by (simp add: over_outer_def inner_forw_def sample_chain_simps)

lemma under_chain:
  "chain DecapsulateRelay_spec (Relay under_outer) [under_outer, inner_forw] (Message ''C'')"
  by (simp add: under_outer_def inner_forw_def sample_chain_simps)

lemma lone_chain:
  "chain DecapsulateRelay_spec (Relay lone_forw) [lone_forw] (Message ''C'')"
  by (simp add: lone_forw_def sample_chain_simps)

text \<open>
  Claim C2, as stated, fails: on the two-hop chain whose outer envelope has hop count 2,
  the depth of the chain, the second decapsulation reaches the leaf message and
  \<open>GetInnerPeerAddr\<close> returns the hop-count error, not the inner peer address.
\<close>

theorem GetInnerPeerAddr_hopCount_depth_counterexample:
  "chain DecapsulateRelay_spec (Relay spec_outer) [spec_outer, spec_inner] (Message ''C'')
   \<and> unat (hopCount spec_outer) = length [spec_outer, spec_inner]
   \<and> GetInnerPeerAddr DecapsulateRelay_spec spec_outer = (Return ([], Some WrongHopCount), 2)
   \<and> fst (GetInnerPeerAddr DecapsulateRelay_spec spec_outer) \<noteq>
       Return (peerAddr spec_inner, None)"
proof -
  have "unat (hopCount spec_outer) = 2" by (simp add: spec_outer_def)
  with GetInnerPeerAddr_chain [OF spec_chain] spec_chain show ?thesis by simp
qed

text \<open>
  Claim C2, amended. For a chain of depth \<open>D\<close> whose outer envelope has hop count
  \<open>D - 1\<close>, \<open>GetInnerPeerAddr\<close> returns the peer address stored in the innermost
  (\<open>D\<close>th) relay envelope; if the hop count is \<open>D\<close> or larger, it fails with the
  hop-count error and returns no address.
\<close>

theorem GetInnerPeerAddr_innermost:
  assumes "chain DecapsulateRelay (Relay r) es leaf"
  shows "(Suc (unat (hopCount r)) = length es \<longrightarrow>
            GetInnerPeerAddr DecapsulateRelay r =
              (Return (peerAddr (last es), None), unat (hopCount r)))
       \<and> (length es \<le> unat (hopCount r) \<longrightarrow>
            GetInnerPeerAddr DecapsulateRelay r =
              (Return ([], Some WrongHopCount), length es))"
proof (intro conjI impI)
  assume depth: "Suc (unat (hopCount r)) = length es"
  then have "es \<noteq> []" by auto
  then have "last es = es ! (length es - 1)" by (rule last_conv_nth)
  also from depth have "length es - 1 = unat (hopCount r)" by simp
  finally have "last es = es ! unat (hopCount r)" .
  with GetInnerPeerAddr_chain [OF assms] depth
  show "GetInnerPeerAddr DecapsulateRelay r =
      (Return (peerAddr (last es), None), unat (hopCount r))"
    by simp
next
  assume "length es \<le> unat (hopCount r)"
  with GetInnerPeerAddr_chain [OF assms]
  show "GetInnerPeerAddr DecapsulateRelay r = (Return ([], Some WrongHopCount), length es)"
    by simp
qed

theorem GetInnerPeerAddr_innermost_witness:
  "GetInnerPeerAddr DecapsulateRelay_spec outer_forw = (Return (A3, None), 1)
   \<and> GetInnerPeerAddr DecapsulateRelay_spec over_outer = (Return ([], Some WrongHopCount), 2)"
proof -
  have "Suc (unat (hopCount outer_forw)) = length [outer_forw, inner_forw]"
    by (simp add: outer_forw_def)
  with GetInnerPeerAddr_innermost [OF forw_chain]
  have "GetInnerPeerAddr DecapsulateRelay_spec outer_forw =
      (Return (peerAddr (last [outer_forw, inner_forw]), None), unat (hopCount outer_forw))"
    by blast
  moreover have "length [over_outer, inner_forw] \<le> unat (hopCount over_outer)"
    by (simp add: over_outer_def)
  with GetInnerPeerAddr_innermost [OF over_chain]
  have "GetInnerPeerAddr DecapsulateRelay_spec over_outer =
      (Return ([], Some WrongHopCount), length [over_outer, inner_forw])"
    by blast
  ultimately show ?thesis by (simp add: outer_forw_def inner_forw_def)
qed

text \<open>
  Claim C8, as stated, fails at \<open>k\<close> equal to the depth: on a chain of depth 1 with hop
  count 1 the only decapsulation reaches the leaf message, and the call fails.
\<close>

theorem GetInnerPeerAddr_full_depth_counterexample:
  "chain DecapsulateRelay_spec (Relay lone_forw) [lone_forw] (Message ''C'')
   \<and> unat (hopCount lone_forw) \<le> length [lone_forw]
   \<and> GetInnerPeerAddr DecapsulateRelay_spec lone_forw = (Return ([], Some WrongHopCount), 1)"
proof -
  have "unat (hopCount lone_forw) = 1" by (simp add: lone_forw_def)
  with GetInnerPeerAddr_chain [OF lone_chain] lone_chain show ?thesis by simp
qed

text \<open>
  Claim C8, amended. For every chain and every hop count \<open>k\<close> on the outer envelope that
  is smaller than the depth, \<open>GetInnerPeerAddr\<close> succeeds after \<open>k\<close> decapsulations and
  returns the peer address of the relay envelope reached by them, which for an
  under-counted \<open>k\<close> need not be the address of the leaf client; with hop count 0 it
  returns the outer envelope's own peer address without any decapsulation, whatever
  \<open>DecapsulateRelay\<close> would do.
\<close>

theorem GetInnerPeerAddr_trusts_hopCount:
  "(chain DecapsulateRelay (Relay r) es leaf \<and> unat (hopCount r) < length es \<longrightarrow>
      GetInnerPeerAddr DecapsulateRelay r =
        (Return (peerAddr (es ! unat (hopCount r)), None), unat (hopCount r)))
   \<and> (hopCount r = 0 \<longrightarrow>
      GetInnerPeerAddr DecapsulateRelay r = (Return (peerAddr r, None), 0))"
  using GetInnerPeerAddr_chain [of DecapsulateRelay r es leaf]
    GetInnerPeerAddr_zero [of r DecapsulateRelay]
  by simp

theorem GetInnerPeerAddr_trusts_hopCount_witness:
  "GetInnerPeerAddr DecapsulateRelay_spec outer_forw = (Return (A3, None), 1)
   \<and> GetInnerPeerAddr DecapsulateRelay_spec under_outer = (Return (A2, None), 0)
   \<and> A2 \<noteq> A3
   \<and> GetInnerPeerAddr (\<lambda>p. (None, Some ''unused'')) under_outer = (Return (A2, None), 0)"
proof -
  note th = GetInnerPeerAddr_trusts_hopCount
  have "unat (hopCount outer_forw) < length [outer_forw, inner_forw]"
    by (simp add: outer_forw_def)
  with th [of DecapsulateRelay_spec outer_forw "[outer_forw, inner_forw]" "Message ''C''"]
    forw_chain
  have "GetInnerPeerAddr DecapsulateRelay_spec outer_forw =
      (Return (peerAddr ([outer_forw, inner_forw] ! unat (hopCount outer_forw)), None),
       unat (hopCount outer_forw))"
    by blast
  then have full: "GetInnerPeerAddr DecapsulateRelay_spec outer_forw = (Return (A3, None), 1)"
    by (simp add: outer_forw_def inner_forw_def)
  have zero: "hopCount under_outer = 0" by (simp add: under_outer_def)
  have own: "peerAddr under_outer = A2" by (simp add: under_outer_def)
  have "unat (hopCount under_outer) < length [under_outer, inner_forw]"
    by (simp add: under_outer_def)
  with th [of DecapsulateRelay_spec under_outer "[under_outer, inner_forw]" "Message ''C''"]
    under_chain
  have "GetInnerPeerAddr DecapsulateRelay_spec under_outer =
      (Return (peerAddr ([under_outer, inner_forw] ! unat (hopCount under_outer)), None),
       unat (hopCount under_outer))"
    by blast
  then have under: "GetInnerPeerAddr DecapsulateRelay_spec under_outer = (Return (A2, None), 0)"
    by (simp add: zero own)
  from th [THEN conjunct2, rule_format, OF zero, of "\<lambda>p. (None, Some ''unused'')"]
  have any: "GetInnerPeerAddr (\<lambda>p. (None, Some ''unused'')) under_outer = (Return (A2, None), 0)"
    by (simp add: own)
  have "A2 \<noteq> A3" by (simp add: A2_def A3_def)
  with full under any show ?thesis by blast
qed

section \<open>Properties of the reply chain\<close>

subsection \<open>The checks on the arguments\<close>

lemma rewind_error_External:
  "rewind Enc la pa oi msg n = Return (x, Some err) \<Longrightarrow> x = None \<and> (\<exists>y. err = External y)"
proof (induction n arbitrary: msg)
  case 0
  then show ?case by simp
next
  case (Suc i)
  then show ?case
    by (auto split: if_splits prod.splits option.splits)
qed

lemma NewRelayRepl_after_checks:
  assumes "messageType r = RELAY_FORW" and "\<not> IsRelay m"
    and "NewRelayReplFromRelayForw Code Dec Enc (Some (Relay r)) (Some m) =
      Some (Return (x, Some e))"
  shows "x = None \<and> (\<exists>y. e = External y)"
proof (cases "unwind Code Dec r [] [] []")
  case None
  with assms show ?thesis by (simp add: NewRelayReplFromRelayForw_def)
next
  case (Some out)
  show ?thesis
  proof (cases out)
    case Panic
    with Some assms show ?thesis by (simp add: NewRelayReplFromRelayForw_def)
  next
    case (Return v)
    show ?thesis
    proof (cases v)
      case (Inl err)
      with Some Return assms
      show ?thesis by (auto simp: NewRelayReplFromRelayForw_def)
    next
      case (Inr lists)
      obtain la pa oi where "lists = (la, pa, oi)" by (cases lists) auto
      with Inr Some Return assms
      have "rewind Enc la pa oi (Some m) (length la) = Return (x, Some e)"
        by (simp add: NewRelayReplFromRelayForw_def)
      then show ?thesis by (rule rewind_error_External)
    qed
  qed
qed

text \<open>
  Claim C4, as stated, fails: the five conditions are not the only failures. A forward
  envelope of type \<open>RELAY_FORW\<close> with no relay-message option and a leaf answer pass all
  five checks, and the call fails with the error of \<open>DecapsulateRelay\<close>.
\<close>

theorem NewRelayRepl_fails_after_checks_counterexample:
  "NewRelayReplFromRelayForw OptionCode_of DecapsulateRelay_spec EncapsulateRelay_spec
     (Some (Relay cut_inner)) (Some (Message ''R'')) =
     Some (Return (None, Some (External ''no relay message'')))
   \<and> Some (Relay cut_inner) \<noteq> (None :: (string Option, string) DHCPv6 option)
   \<and> IsRelay (Relay cut_inner :: (string Option, string) DHCPv6)
   \<and> messageType cut_inner = RELAY_FORW
   \<and> Some (Message ''R'') \<noteq> (None :: (string Option, string) DHCPv6 option)
   \<and> \<not> IsRelay (Message ''R'' :: (string Option, string) DHCPv6)"
  by code_simp

text \<open>
  Claim C4, amended. \<open>NewRelayReplFromRelayForw\<close> fails with one of five distinct
  validation errors, never producing a message, each exactly when its condition is the
  first to hold, in the order of the checks: the forward-chain argument is nil; it is
  not a relay envelope; it is a relay envelope whose type is not \<open>RELAY_FORW\<close>; the
  answer message is nil; the answer message is a relay. A failure under none of the
  five is an error passed on from a single-hop primitive, also with no message.
\<close>

theorem NewRelayRepl_validation:
  "((\<exists>x. NewRelayReplFromRelayForw Code Dec Enc relayForw msg =
          Some (Return (x, Some RelayForwNil))) \<longleftrightarrow>
      relayForw = None)
   \<and> ((\<exists>x. NewRelayReplFromRelayForw Code Dec Enc relayForw msg =
          Some (Return (x, Some NotADHCPv6Relay))) \<longleftrightarrow>
      (\<exists>m. relayForw = Some (Message m)))
   \<and> ((\<exists>x. NewRelayReplFromRelayForw Code Dec Enc relayForw msg =
          Some (Return (x, Some NotRelayForw))) \<longleftrightarrow>
      (\<exists>r. relayForw = Some (Relay r) \<and> messageType r \<noteq> RELAY_FORW))
   \<and> ((\<exists>x. NewRelayReplFromRelayForw Code Dec Enc relayForw msg =
          Some (Return (x, Some MessageNil))) \<longleftrightarrow>
      (\<exists>r. relayForw = Some (Relay r) \<and> messageType r = RELAY_FORW \<and> msg = None))
   \<and> ((\<exists>x. NewRelayReplFromRelayForw Code Dec Enc relayForw msg =
          Some (Return (x, Some MessageIsRelay))) \<longleftrightarrow>
      (\<exists>r m. relayForw = Some (Relay r) \<and> messageType r = RELAY_FORW
          \<and> msg = Some m \<and> IsRelay m))
   \<and> (\<forall>x e. NewRelayReplFromRelayForw Code Dec Enc relayForw msg =
          Some (Return (x, Some e)) \<longrightarrow>
        x = None \<and> e \<noteq> WrongHopCount)"
proof (cases relayForw)
  case None
  then show ?thesis by (auto simp: NewRelayReplFromRelayForw_def)
next
  case (Some p)
  show ?thesis
  proof (cases p)
    case (Message m)
    with Some show ?thesis by (auto simp: NewRelayReplFromRelayForw_def)
  next
    case (Relay r)
    show ?thesis
    proof (cases "messageType r = RELAY_FORW")
      case False
      with Some Relay show ?thesis by (auto simp: NewRelayReplFromRelayForw_def)
    next
      case True
      show ?thesis
      proof (cases msg)
        case None
        with Some Relay True show ?thesis by (auto simp: NewRelayReplFromRelayForw_def)
      next
        case (Some m)
        show ?thesis
        proof (cases "IsRelay m")
          case True
          with Some \<open>relayForw = Some p\<close> Relay \<open>messageType r = RELAY_FORW\<close> show ?thesis
            by (auto simp: NewRelayReplFromRelayForw_def)
        next
          case False
          note after = NewRelayRepl_after_checks [OF \<open>messageType r = RELAY_FORW\<close> False,
              of Code Dec Enc]
          from Some \<open>relayForw = Some p\<close> Relay \<open>messageType r = RELAY_FORW\<close> False
          show ?thesis using after by fastforce
        qed
      qed
    qed
  qed
qed

theorem NewRelayRepl_validation_witness:
  "NewRelayReplFromRelayForw OptionCode_of DecapsulateRelay_spec EncapsulateRelay_spec
     None (Some (Message ''R'')) = Some (Return (None, Some RelayForwNil))
   \<and> NewRelayReplFromRelayForw OptionCode_of DecapsulateRelay_spec EncapsulateRelay_spec
     (Some (Message ''C'')) (Some (Message ''R'')) = Some (Return (None, Some NotADHCPv6Relay))
   \<and> NewRelayReplFromRelayForw OptionCode_of DecapsulateRelay_spec EncapsulateRelay_spec
     (Some (Relay repl_relay)) (Some (Message ''R'')) = Some (Return (None, Some NotRelayForw))
   \<and> NewRelayReplFromRelayForw OptionCode_of DecapsulateRelay_spec EncapsulateRelay_spec
     (Some (Relay outer_forw)) None = Some (Return (None, Some MessageNil))
   \<and> NewRelayReplFromRelayForw OptionCode_of DecapsulateRelay_spec EncapsulateRelay_spec
     (Some (Relay outer_forw)) (Some (Relay inner_forw)) = Some (Return (None, Some MessageIsRelay))"
proof -
  note th = NewRelayRepl_validation [of OptionCode_of DecapsulateRelay_spec EncapsulateRelay_spec]
  have types: "messageType repl_relay \<noteq> RELAY_FORW" "messageType outer_forw = RELAY_FORW"
    by (simp_all add: repl_relay_def outer_forw_def RELAY_REPL_def RELAY_FORW_def)
  have "NewRelayReplFromRelayForw OptionCode_of DecapsulateRelay_spec EncapsulateRelay_spec
     None (Some (Message ''R'')) = Some (Return (None, Some RelayForwNil))"
    using th [of None "Some (Message ''R'')"] by blast
  moreover have "NewRelayReplFromRelayForw OptionCode_of DecapsulateRelay_spec EncapsulateRelay_spec
     (Some (Message ''C'')) (Some (Message ''R'')) = Some (Return (None, Some NotADHCPv6Relay))"
    using th [of "Some (Message ''C'')" "Some (Message ''R'')"] by blast
  moreover have "NewRelayReplFromRelayForw OptionCode_of DecapsulateRelay_spec EncapsulateRelay_spec
     (Some (Relay repl_relay)) (Some (Message ''R'')) = Some (Return (None, Some NotRelayForw))"
    using th [of "Some (Relay repl_relay)" "Some (Message ''R'')"] types(1) by blast
  moreover have "NewRelayReplFromRelayForw OptionCode_of DecapsulateRelay_spec EncapsulateRelay_spec
     (Some (Relay outer_forw)) None = Some (Return (None, Some MessageNil))"
    using th [of "Some (Relay outer_forw)" None] types(2) by blast
  moreover have "NewRelayReplFromRelayForw OptionCode_of DecapsulateRelay_spec EncapsulateRelay_spec
     (Some (Relay outer_forw)) (Some (Relay inner_forw)) = Some (Return (None, Some MessageIsRelay))"
    using th [of "Some (Relay outer_forw)" "Some (Relay inner_forw)"] types(2) IsRelay.simps(1)
    by blast
  ultimately show ?thesis by blast
qed

subsection \<open>The two loops\<close>

lemma unwind_chain:
  "chain Dec (Relay e) (e # es) leaf \<Longrightarrow>
   unwind Code Dec e la pa oi =
     Some (Return (Inr (la @ map linkAddr (e # es), pa @ map peerAddr (e # es),
       oi @ map (\<lambda>e. GetOneOption Code e OPTION_INTERFACE_ID) (e # es))))"
proof (induction es arbitrary: e la pa oi)
  case Nil
  then have dec: "Dec (Relay e) = (Some leaf, None)" and leaf: "\<not> IsRelay leaf"
    by (auto split: prod.splits option.splits)
  from leaf obtain m where "leaf = Message m" by (cases leaf) simp_all
  with dec show ?case by (subst unwind.simps) simp
next
  case (Cons e' es)
  then have dec: "Dec (Relay e) = (Some (Relay e'), None)"
    and rest: "chain Dec (Relay e') (e' # es) leaf"
    by (auto split: prod.splits option.splits)
  from Cons.IH [OF rest] dec show ?case by (subst unwind.simps) simp
qed

lemma GetOneOption_Code: "GetOneOption Code r c = Some opt \<Longrightarrow> Code opt = c"
  by (auto simp: GetOneOption_def find_Some_iff)

lemma AddOption_fields:
  "messageType (AddOption e opt) = messageType e"
  "linkAddr (AddOption e opt) = linkAddr e"
  "peerAddr (AddOption e opt) = peerAddr e"
  "options (AddOption e opt) = options e @ [opt]"
  by (simp_all add: AddOption_def SetOptions_def)

lemma rewind_chain:
  assumes contract: "EncapsulateContract Code Dec Enc"
    and lens: "length pa = length la" "length oi = length la"
    and codes: "\<forall>i<length la. \<forall>opt. oi ! i = Some opt \<longrightarrow> Code opt = OPTION_INTERFACE_ID"
  shows "n \<le> length la \<Longrightarrow> chain Dec m ms M \<Longrightarrow>
    \<exists>res es'. rewind Enc la pa oi (Some m) n = Return (Some res, None)
      \<and> chain Dec res (es' @ ms) M \<and> length es' = n
      \<and> (\<forall>i<n. messageType (es' ! i) = RELAY_REPL
            \<and> linkAddr (es' ! i) = la ! i \<and> peerAddr (es' ! i) = pa ! i
            \<and> (\<forall>opt. oi ! i = Some opt \<longrightarrow>
                  options (es' ! i) \<noteq> [] \<and> last (options (es' ! i)) = opt))"
proof (induction n arbitrary: m ms)
  case 0
  then show ?case by simp
next
  case (Suc i)
  from Suc.prems(1) lens have i: "i < length la" "i < length pa" "i < length oi" by simp_all
  from contract obtain e where e:
    "Enc (Some m) RELAY_REPL (la ! i) (pa ! i) = (Some e, None)"
    "messageType e = RELAY_REPL" "linkAddr e = la ! i" "peerAddr e = pa ! i"
    "Dec (Relay e) = (Some m, None)"
    "\<forall>opt. Code opt = OPTION_INTERFACE_ID \<longrightarrow> Dec (Relay (AddOption e opt)) = (Some m, None)"
    unfolding EncapsulateContract_def by blast
  define e' where "e' = (case oi ! i of Some opt \<Rightarrow> AddOption e opt | None \<Rightarrow> e)"
  have step: "rewind Enc la pa oi (Some m) (Suc i) = rewind Enc la pa oi (Some (Relay e')) i"
    using i e(1) by (simp add: e'_def split: option.split)
  have dec: "Dec (Relay e') = (Some m, None)"
    using e(5,6) codes i(1) by (auto simp: e'_def split: option.split)
  have fields: "messageType e' = RELAY_REPL" "linkAddr e' = la ! i" "peerAddr e' = pa ! i"
    using e(2,3,4) by (simp_all add: e'_def AddOption_fields split: option.split)
  have opt: "\<forall>opt. oi ! i = Some opt \<longrightarrow> options e' \<noteq> [] \<and> last (options e') = opt"
    by (simp add: e'_def AddOption_fields)
  from dec Suc.prems(2) have "chain Dec (Relay e') (e' # ms) M" by simp
  from Suc.IH [OF _ this] Suc.prems(1) obtain res es'' where IH:
    "rewind Enc la pa oi (Some (Relay e')) i = Return (Some res, None)"
    "chain Dec res (es'' @ e' # ms) M" "length es'' = i"
    "\<forall>j<i. messageType (es'' ! j) = RELAY_REPL
        \<and> linkAddr (es'' ! j) = la ! j \<and> peerAddr (es'' ! j) = pa ! j
        \<and> (\<forall>opt. oi ! j = Some opt \<longrightarrow>
              options (es'' ! j) \<noteq> [] \<and> last (options (es'' ! j)) = opt)"
    by auto
  have "\<forall>j<Suc i. messageType ((es'' @ [e']) ! j) = RELAY_REPL
        \<and> linkAddr ((es'' @ [e']) ! j) = la ! j \<and> peerAddr ((es'' @ [e']) ! j) = pa ! j
        \<and> (\<forall>opt. oi ! j = Some opt \<longrightarrow>
              options ((es'' @ [e']) ! j) \<noteq> [] \<and> last (options ((es'' @ [e']) ! j)) = opt)"
  proof (intro allI impI)
    fix j assume "j < Suc i"
    then consider "j < i" | "j = i" by linarith
    then show "messageType ((es'' @ [e']) ! j) = RELAY_REPL
        \<and> linkAddr ((es'' @ [e']) ! j) = la ! j \<and> peerAddr ((es'' @ [e']) ! j) = pa ! j
        \<and> (\<forall>opt. oi ! j = Some opt \<longrightarrow>
              options ((es'' @ [e']) ! j) \<noteq> [] \<and> last (options ((es'' @ [e']) ! j)) = opt)"
    proof cases
      case 1
      with IH(3,4) show ?thesis by (simp add: nth_append)
    next
      case 2
      with IH(3) fields opt show ?thesis by (simp add: nth_append)
    qed
  qed
  with step IH(1,2,3) have "rewind Enc la pa oi (Some m) (Suc i) = Return (Some res, None)
      \<and> chain Dec res ((es'' @ [e']) @ ms) M \<and> length (es'' @ [e']) = Suc i
      \<and> (\<forall>j<Suc i. messageType ((es'' @ [e']) ! j) = RELAY_REPL
        \<and> linkAddr ((es'' @ [e']) ! j) = la ! j \<and> peerAddr ((es'' @ [e']) ! j) = pa ! j
        \<and> (\<forall>opt. oi ! j = Some opt \<longrightarrow>
              options ((es'' @ [e']) ! j) \<noteq> [] \<and> last (options ((es'' @ [e']) ! j)) = opt))"
    by simp
  then show ?case by blast
qed

lemma spec_contract:
  "EncapsulateContract OptionCode_of
     (DecapsulateRelay_spec :: ('m Option, 'm, string) decapsulate) EncapsulateRelay_spec"
  unfolding EncapsulateContract_def
proof (intro allI)
  fix m :: "('m Option, 'm) DHCPv6" and mType link peer
  show "\<exists>e. EncapsulateRelay_spec (Some m) mType link peer = (Some e, None)
        \<and> messageType e = mType \<and> linkAddr e = link \<and> peerAddr e = peer
        \<and> DecapsulateRelay_spec (Relay e) = (Some m, None)
        \<and> (\<forall>opt. OptionCode_of opt = OPTION_INTERFACE_ID \<longrightarrow>
              DecapsulateRelay_spec (Relay (AddOption e opt)) = (Some m, None))"
    by (cases m) (simp_all add: GetOneOption_def AddOption_def SetOptions_def)
qed

lemma sample_reply:
  "NewRelayReplFromRelayForw OptionCode_of DecapsulateRelay_spec EncapsulateRelay_spec
     (Some (Relay outer_forw)) (Some (Message ''R'')) =
   Some (Return (Some (Relay outer_repl), None))"
  by code_simp

text \<open>
  Claim C1. For every chain of depth \<open>D\<close> whose outer envelope is a \<open>RELAY_FORW\<close> and
  every answer message \<open>M\<close> that is not a relay, \<open>NewRelayReplFromRelayForw\<close> returns a
  chain of \<open>D\<close> envelopes of type \<open>RELAY_REPL\<close> around \<open>M\<close>: hop by hop the link and
  peer addresses are those of the original chain, the innermost envelope wraps \<open>M\<close>
  itself, and the interface-identifier option recorded at a hop is the last option of
  the new envelope of that hop. The primitives are any that keep their contract.
\<close>

theorem NewRelayRepl_mirrors_chain:
  assumes "EncapsulateContract Code DecapsulateRelay EncapsulateRelay"
    and "chain DecapsulateRelay (Relay r) es leaf"
    and "messageType r = RELAY_FORW"
    and "\<not> IsRelay M"
  shows "\<exists>res es'.
      NewRelayReplFromRelayForw Code DecapsulateRelay EncapsulateRelay (Some (Relay r)) (Some M) =
        Some (Return (Some res, None))
    \<and> chain DecapsulateRelay res es' M
    \<and> length es' = length es
    \<and> (\<forall>i<length es.
          messageType (es' ! i) = RELAY_REPL
        \<and> linkAddr (es' ! i) = linkAddr (es ! i)
        \<and> peerAddr (es' ! i) = peerAddr (es ! i)
        \<and> (\<forall>opt. GetOneOption Code (es ! i) OPTION_INTERFACE_ID = Some opt \<longrightarrow>
              options (es' ! i) \<noteq> [] \<and> last (options (es' ! i)) = opt))"
proof -
  let ?la = "map linkAddr es" and ?pa = "map peerAddr es"
    and ?oi = "map (\<lambda>e. GetOneOption Code e OPTION_INTERFACE_ID) es"
  from chain_head [OF assms(2)] obtain es0 where es: "es = r # es0" by blast
  with assms(2) have "chain DecapsulateRelay (Relay r) (r # es0) leaf" by simp
  from unwind_chain [OF this, of Code "[]" "[]" "[]"] es
  have unw: "unwind Code DecapsulateRelay r [] [] [] = Some (Return (Inr (?la, ?pa, ?oi)))"
    by simp
  have codes: "\<forall>i<length ?la. \<forall>opt. ?oi ! i = Some opt \<longrightarrow> Code opt = OPTION_INTERFACE_ID"
    by (auto dest: GetOneOption_Code)
  from assms(4) have leafM: "chain DecapsulateRelay M [] M" by simp
  from rewind_chain [where pa = ?pa and la = ?la and oi = ?oi and n = "length ?la",
      OF assms(1) _ _ codes _ leafM]
  obtain res es' where rw:
    "rewind EncapsulateRelay ?la ?pa ?oi (Some M) (length ?la) = Return (Some res, None)"
    "chain DecapsulateRelay res es' M" "length es' = length es"
    "\<forall>i<length es. messageType (es' ! i) = RELAY_REPL
        \<and> linkAddr (es' ! i) = ?la ! i \<and> peerAddr (es' ! i) = ?pa ! i
        \<and> (\<forall>opt. ?oi ! i = Some opt \<longrightarrow>
              options (es' ! i) \<noteq> [] \<and> last (options (es' ! i)) = opt)"
    by auto
  from unw rw(1) assms(3,4)
  have call: "NewRelayReplFromRelayForw Code DecapsulateRelay EncapsulateRelay
      (Some (Relay r)) (Some M) = Some (Return (Some res, None))"
    by (simp add: NewRelayReplFromRelayForw_def)
  from rw(4) have "\<forall>i<length es.
          messageType (es' ! i) = RELAY_REPL
        \<and> linkAddr (es' ! i) = linkAddr (es ! i)
        \<and> peerAddr (es' ! i) = peerAddr (es ! i)
        \<and> (\<forall>opt. GetOneOption Code (es ! i) OPTION_INTERFACE_ID = Some opt \<longrightarrow>
              options (es' ! i) \<noteq> [] \<and> last (options (es' ! i)) = opt)"
    by simp
  with call rw(2,3) show ?thesis by blast
qed

theorem NewRelayRepl_mirrors_chain_witness:
  "NewRelayReplFromRelayForw OptionCode_of DecapsulateRelay_spec EncapsulateRelay_spec
     (Some (Relay outer_forw)) (Some (Message ''R'')) =
     Some (Return (Some (Relay outer_repl), None))
   \<and> (\<exists>es'. chain DecapsulateRelay_spec (Relay outer_repl) es' (Message ''R'')
        \<and> length es' = 2
        \<and> messageType (es' ! 0) = RELAY_REPL \<and> messageType (es' ! 1) = RELAY_REPL
        \<and> linkAddr (es' ! 0) = A1 \<and> peerAddr (es' ! 0) = A2
        \<and> linkAddr (es' ! 1) = A2 \<and> peerAddr (es' ! 1) = A3
        \<and> last (options (es' ! 1)) = OptInterfaceId [0x58])"
proof -
  have forw: "messageType outer_forw = RELAY_FORW" by (simp add: outer_forw_def)
  have leaf: "\<not> IsRelay (Message ''R'' :: (string Option, string) DHCPv6)" by simp
  from NewRelayRepl_mirrors_chain [OF spec_contract forw_chain forw leaf]
  obtain res es' where r:
    "NewRelayReplFromRelayForw OptionCode_of DecapsulateRelay_spec EncapsulateRelay_spec
       (Some (Relay outer_forw)) (Some (Message ''R'')) = Some (Return (Some res, None))"
    "chain DecapsulateRelay_spec res es' (Message ''R'')"
    "length es' = length [outer_forw, inner_forw]"
    "\<forall>i<length [outer_forw, inner_forw].
          messageType (es' ! i) = RELAY_REPL
        \<and> linkAddr (es' ! i) = linkAddr ([outer_forw, inner_forw] ! i)
        \<and> peerAddr (es' ! i) = peerAddr ([outer_forw, inner_forw] ! i)
        \<and> (\<forall>opt. GetOneOption OptionCode_of ([outer_forw, inner_forw] ! i) OPTION_INTERFACE_ID =
                Some opt \<longrightarrow>
              options (es' ! i) \<noteq> [] \<and> last (options (es' ! i)) = opt)"
    by blast
  from r(1) sample_reply have res: "res = Relay outer_repl" by simp
  from r(4) have h0: "messageType (es' ! 0) = RELAY_REPL \<and> linkAddr (es' ! 0) = A1
      \<and> peerAddr (es' ! 0) = A2"
    by (simp add: outer_forw_def)
  have iid: "GetOneOption OptionCode_of inner_forw OPTION_INTERFACE_ID = Some (OptInterfaceId [0x58])"
    by (simp add: inner_forw_def GetOneOption_def)
  from r(4) have "messageType (es' ! 1) = RELAY_REPL
        \<and> linkAddr (es' ! 1) = linkAddr inner_forw
        \<and> peerAddr (es' ! 1) = peerAddr inner_forw
        \<and> (\<forall>opt. GetOneOption OptionCode_of inner_forw OPTION_INTERFACE_ID = Some opt \<longrightarrow>
              options (es' ! 1) \<noteq> [] \<and> last (options (es' ! 1)) = opt)"
    by (auto dest: spec [of _ 1])
  with iid have h1: "messageType (es' ! 1) = RELAY_REPL \<and> linkAddr (es' ! 1) = A2
      \<and> peerAddr (es' ! 1) = A3 \<and> last (options (es' ! 1)) = OptInterfaceId [0x58]"
    by (simp add: inner_forw_def)
  from r(2,3) res h0 h1 sample_reply show ?thesis by auto
qed

end
